theory Spec2Isabelle
  imports Main
begin

section \<open>A recursive DNS resolver (dns\_resolve.py)\<close>

text \<open>
  The resolver walks the DNS delegation hierarchy itself. The DNS library it is built on
  (parsing of names, construction of queries, the UDP exchange, the textual rendering of
  records) is not part of the program: it enters the model as the record \<open>env\<close> and as
  the text fields that a message carries. Everything else is translated from the source:
  the two module-level dictionaries are fields of an explicit \<open>world\<close> that every
  function takes and returns, every \<open>raise\<close> is a value, every \<open>for\<close> loop is a
  recursive function over the list it iterates, and the recursion of
  \<open>recursive_resolver\<close>, which the source does not bound, is counted by a fuel argument.
\<close>

subsection \<open>Python strings and lists\<close>

datatype py_error = IndexError | DNSException

text \<open>\<open>str.isspace\<close> on the code points below 256.\<close>

definition isspace :: "char \<Rightarrow> bool" where
  "isspace c = (of_char c \<in> {9, 10, 11, 12, 13, 28, 29, 30, 31, 32, 133, 160 :: nat})"

text \<open>\<open>s.split()\<close>: the maximal runs of non-whitespace characters; \<open>cur\<close> is the run being read.\<close>

fun split_ws :: "string \<Rightarrow> string \<Rightarrow> string list" where
  "split_ws cur [] = (if cur = [] then [] else [cur])"
| "split_ws cur (c # cs) =
     (if isspace c then (if cur = [] then split_ws [] cs else cur # split_ws [] cs)
      else split_ws (cur @ [c]) cs)"

definition py_split :: "string \<Rightarrow> string list" where
  "py_split s = split_ws [] s"

text \<open>\<open>s.split(sep)\<close> for a one-character separator: empty pieces are kept, and the result
  is never empty.\<close>

fun split_on :: "char \<Rightarrow> string \<Rightarrow> string \<Rightarrow> string list" where
  "split_on sep cur [] = [cur]"
| "split_on sep cur (c # cs) =
     (if c = sep then cur # split_on sep [] cs else split_on sep (cur @ [c]) cs)"

definition split_dot :: "string \<Rightarrow> string list" where
  "split_dot s = split_on (CHR ''.'') [] s"

text \<open>\<open>xs[-2]\<close>, which raises IndexError on a list shorter than two.\<close>

definition index_m2 :: "'a list \<Rightarrow> py_error + 'a" where
  "index_m2 xs = (if length xs < 2 then Inl IndexError else Inr (xs ! (length xs - 2)))"

text \<open>\<open>sep.join(xs)\<close> with \<open>sep = "."\<close>: the text of a name from its dot-separated pieces.\<close>

fun dotted :: "string list \<Rightarrow> string" where
  "dotted [] = []"
| "dotted [l] = l"
| "dotted (l # m # ls) = l @ CHR ''.'' # dotted (m # ls)"

subsection \<open>Messages\<close>

text \<open>
  One rdata (an element of an RRset): its \<open>rdtype\<close>, its \<open>str()\<close>, and for an MX rdata
  the preference and \<open>str(exchange)\<close>. An RRset: the text of its owner name, its rdatas in
  iteration order, and its own \<open>str()\<close>. A message: its three sections.
\<close>

record rdata =
  rdtype :: nat
  to_text :: string
  preference :: nat
  exchange :: string

record rrset =
  rr_name :: string
  items :: "rdata list"
  rr_text :: string

record message =
  answer :: "rrset list"
  authority :: "rrset list"
  additional :: "rrset list"

definition ROOT_SERVERS :: "string list" where
  "ROOT_SERVERS =
     [''198.41.0.4'', ''192.228.79.201'', ''192.33.4.12'', ''199.7.91.13'',
      ''192.203.230.10'', ''192.5.5.241'', ''192.112.36.4'', ''198.97.190.53'',
      ''192.36.148.17'', ''192.58.128.30'', ''193.0.14.129'', ''199.7.83.42'',
      ''202.12.27.33'']"

subsection \<open>The library and the state\<close>

text \<open>
  \<open>from_text\<close> is \<open>dns.name.from_text\<close> followed by \<open>str\<close> (\<open>None\<close>: it raises);
  \<open>make_query\<close> is \<open>dns.message.make_query\<close> (\<open>None\<close>: it raises); \<open>udp\<close> is
  \<open>dns.query.udp\<close> with the timeout of 3 seconds, on a network whose state is \<open>'n\<close>
  (\<open>None\<close>: it raises, whatever the exception).
\<close>

record ('q, 'n) env =
  from_text :: "string \<Rightarrow> string option"
  make_query :: "string \<Rightarrow> nat \<Rightarrow> 'q option"
  udp :: "'q \<Rightarrow> string \<Rightarrow> 'n \<Rightarrow> message option \<times> 'n"

text \<open>The dictionary that \<open>collect_results\<close> returns, with the source's four lists.\<close>

record full_response =
  cnames :: "(rdata \<times> string) list"
  arecords :: "(string \<times> string) list"
  aaaarecords :: "(string \<times> string) list"
  mxrecords :: "(string \<times> nat \<times> string) list"

record 'n world =
  dict_cache :: "string \<rightharpoonup> string list"
  domain_cache :: "string \<rightharpoonup> full_response"
  net :: 'n

text \<open>
  What a call does: it runs out of fuel (the recursion is deeper than the bound), it
  raises, or it returns a value and leaves a state. A loop inside a function either
  falls through (\<open>Continue\<close>) or executes a \<open>return\<close>.
\<close>

datatype ('a, 's) outcome = OutOfFuel | Raise py_error | Ok 'a 's

datatype 'a flow = Continue | Return 'a

subsection \<open>ipv4\_addr\<close>

fun ipv4_addr_loop ::
  "string list \<Rightarrow> string list \<Rightarrow> string list \<Rightarrow> (string \<rightharpoonup> string list) \<Rightarrow>
   py_error + (string list \<times> (string \<rightharpoonup> string list))" where
  "ipv4_addr_loop ipv4_address [] ipv4_list dc = Inr (ipv4_list, dc)"
| "ipv4_addr_loop ipv4_address (row # rows) ipv4_list dc =
     (if row = ''A'' then
        (case ipv4_address of
           [] \<Rightarrow> Inl IndexError
         | first # _ \<Rightarrow>
             (case index_m2 (split_dot first) of
                Inl e \<Rightarrow> Inl e
              | Inr key \<Rightarrow>
                  (case dc key of
                     None \<Rightarrow>
                       ipv4_addr_loop ipv4_address rows [last ipv4_address]
                         (dc(key \<mapsto> [last ipv4_address]))
                   | Some stored \<Rightarrow>
                       if last ipv4_address \<notin> set stored
                       then ipv4_addr_loop ipv4_address rows [last ipv4_address]
                              (dc(key \<mapsto> stored @ [last ipv4_address]))
                       else ipv4_addr_loop ipv4_address rows [last ipv4_address] dc)))
      else ipv4_addr_loop ipv4_address rows ipv4_list dc)"

definition ipv4_addr ::
  "string \<Rightarrow> (string \<rightharpoonup> string list) \<Rightarrow> py_error + (string list \<times> (string \<rightharpoonup> string list))" where
  "ipv4_addr string dc = ipv4_addr_loop (py_split string) (py_split string) [] dc"

subsection \<open>recursive\_resolver\<close>

text \<open>
  The scan of a non-empty answer section (the two nested \<open>for\<close> loops of the source):
  every record first overwrites \<open>target_name\<close> with its text less the last character;
  a record of the requested type ends the scan with the response, a CNAME record (type 5)
  ends it with a restart, and a scan that ends on neither leaves the overwritten
  \<open>target_name\<close> behind.
\<close>

datatype scan = Match | Alias string | NoMatch string

fun scan_rrset :: "nat \<Rightarrow> string \<Rightarrow> rdata list \<Rightarrow> scan" where
  "scan_rrset qtype target_name [] = NoMatch target_name"
| "scan_rrset qtype target_name (each_answer # rest) =
     (if rdtype each_answer = qtype then Match
      else if rdtype each_answer = 5 then Alias (butlast (to_text each_answer))
      else scan_rrset qtype (butlast (to_text each_answer)) rest)"

fun scan_answer :: "nat \<Rightarrow> string \<Rightarrow> rrset list \<Rightarrow> scan" where
  "scan_answer qtype target_name [] = NoMatch target_name"
| "scan_answer qtype target_name (answers # rest) =
     (case scan_rrset qtype target_name (items answers) of
        NoMatch target_name' \<Rightarrow> scan_answer qtype target_name' rest
      | Match \<Rightarrow> Match
      | Alias a \<Rightarrow> Alias a)"

text \<open>The loop over the additional section: \<open>address_list = address_list + ipv4_addr(str(record))\<close>.\<close>

fun additional_loop ::
  "rrset list \<Rightarrow> string list \<Rightarrow> (string \<rightharpoonup> string list) \<Rightarrow>
   py_error + (string list \<times> (string \<rightharpoonup> string list))" where
  "additional_loop [] address_list dc = Inr (address_list, dc)"
| "additional_loop (record # rest) address_list dc =
     (case ipv4_addr (rr_text record) dc of
        Inl e \<Rightarrow> Inl e
      | Inr (found, dc') \<Rightarrow> additional_loop rest (address_list @ found) dc')"

text \<open>The inner loop over one authority RRset: \<open>None\<close> when it meets an SOA record (type 6),
  else the extended \<open>ns_list\<close>.\<close>

fun scan_auth :: "rdata list \<Rightarrow> string list \<Rightarrow> string list option" where
  "scan_auth [] ns_list = Some ns_list"
| "scan_auth (each_auth # rest) ns_list =
     (if rdtype each_auth = 6 then None
      else scan_auth rest (ns_list @ [butlast (to_text each_auth)]))"

text \<open>
  The resolver and its loops. \<open>recursive_resolver env (Suc n)\<close> may nest \<open>n\<close> further
  calls of itself; the loops of a call carry that \<open>n\<close>. \<open>server_loop\<close> is the loop over
  \<open>servers\<close>, with the query built once before it and \<open>target_name\<close> as the variable the
  answer scan overwrites; \<open>authority_loop\<close> is the loop over the authority section,
  \<open>ns_loop\<close> the loop over \<open>ns_list\<close> nested in it, \<open>ns_answer_loop\<close> the loop over
  \<open>ns_result.answer\<close> nested in that. Only the call of \<open>dns.query.udp\<close> stands in the
  \<open>try\<close> of the source, so an IndexError of \<open>ipv4_addr\<close> and an exception of
  \<open>make_query\<close> leave the resolver. The interpreter's own limit on the depth of recursion
  is not modelled: a resolution that needs more nested calls than the fuel is \<open>OutOfFuel\<close>.
\<close>

function (sequential) recursive_resolver ::
  "('q, 'n) env \<Rightarrow> nat \<Rightarrow> string \<Rightarrow> nat \<Rightarrow> string list \<Rightarrow> 'n world \<Rightarrow>
   (message option, 'n world) outcome"
and server_loop ::
  "('q, 'n) env \<Rightarrow> nat \<Rightarrow> 'q \<Rightarrow> string \<Rightarrow> nat \<Rightarrow> string list \<Rightarrow> 'n world \<Rightarrow>
   (message option, 'n world) outcome"
and authority_loop ::
  "('q, 'n) env \<Rightarrow> nat \<Rightarrow> string \<Rightarrow> nat \<Rightarrow> rrset list \<Rightarrow> string list \<Rightarrow> 'n world \<Rightarrow>
   (message option flow, 'n world) outcome"
and ns_loop ::
  "('q, 'n) env \<Rightarrow> nat \<Rightarrow> string \<Rightarrow> nat \<Rightarrow> string list \<Rightarrow> 'n world \<Rightarrow>
   (message option flow, 'n world) outcome"
and ns_answer_loop ::
  "('q, 'n) env \<Rightarrow> nat \<Rightarrow> string \<Rightarrow> nat \<Rightarrow> rrset list \<Rightarrow> 'n world \<Rightarrow>
   (message option flow, 'n world) outcome"
where
  "recursive_resolver env 0 target_name qtype servers w = OutOfFuel"
| "recursive_resolver env (Suc n) target_name qtype servers w =
     (if servers = [] then Ok None w
      else case make_query env target_name qtype of
             None \<Rightarrow> Raise DNSException
           | Some outbound_query \<Rightarrow> server_loop env n outbound_query target_name qtype servers w)"
| "server_loop env n outbound_query target_name qtype [] w = Ok None w"
| "server_loop env n outbound_query target_name qtype (each_server # rest) w =
     (case udp env outbound_query each_server (net w) of
        (None, nt) \<Rightarrow> server_loop env n outbound_query target_name qtype rest (w\<lparr>net := nt\<rparr>)
      | (Some response, nt) \<Rightarrow>
          if answer response \<noteq> [] then
            (case scan_answer qtype target_name (answer response) of
               Match \<Rightarrow> Ok (Some response) (w\<lparr>net := nt\<rparr>)
             | Alias alias \<Rightarrow> recursive_resolver env n alias qtype ROOT_SERVERS (w\<lparr>net := nt\<rparr>)
             | NoMatch target_name' \<Rightarrow>
                 server_loop env n outbound_query target_name' qtype rest (w\<lparr>net := nt\<rparr>))
          else if additional response \<noteq> [] then
            (case additional_loop (additional response) [] (dict_cache w) of
               Inl e \<Rightarrow> Raise e
             | Inr (address_list, dc) \<Rightarrow>
                 recursive_resolver env n target_name qtype address_list
                   (w\<lparr>net := nt, dict_cache := dc\<rparr>))
          else
            (case authority_loop env n target_name qtype (authority response) [] (w\<lparr>net := nt\<rparr>) of
               OutOfFuel \<Rightarrow> OutOfFuel
             | Raise e \<Rightarrow> Raise e
             | Ok (Return result) w' \<Rightarrow> Ok result w'
             | Ok Continue w' \<Rightarrow> server_loop env n outbound_query target_name qtype rest w'))"
| "authority_loop env n target_name qtype [] ns_list w = Ok Continue w"
| "authority_loop env n target_name qtype (auth_list # rest) ns_list w =
     (case scan_auth (items auth_list) ns_list of
        None \<Rightarrow> Ok (Return None) w
      | Some ns_list' \<Rightarrow>
          (case ns_loop env n target_name qtype ns_list' w of
             OutOfFuel \<Rightarrow> OutOfFuel
           | Raise e \<Rightarrow> Raise e
           | Ok (Return result) w' \<Rightarrow> Ok (Return result) w'
           | Ok Continue w' \<Rightarrow> authority_loop env n target_name qtype rest ns_list' w'))"
| "ns_loop env n target_name qtype [] w = Ok Continue w"
| "ns_loop env n target_name qtype (each_name # rest) w =
     (case recursive_resolver env n each_name 1 ROOT_SERVERS w of
        OutOfFuel \<Rightarrow> OutOfFuel
      | Raise e \<Rightarrow> Raise e
      | Ok None w' \<Rightarrow> ns_loop env n target_name qtype rest w'
      | Ok (Some ns_result) w' \<Rightarrow>
          (case ns_answer_loop env n target_name qtype (answer ns_result) w' of
             OutOfFuel \<Rightarrow> OutOfFuel
           | Raise e \<Rightarrow> Raise e
           | Ok (Return result) w'' \<Rightarrow> Ok (Return result) w''
           | Ok Continue w'' \<Rightarrow> ns_loop env n target_name qtype rest w''))"
| "ns_answer_loop env n target_name qtype [] w = Ok Continue w"
| "ns_answer_loop env n target_name qtype (each_answer # rest) w =
     (case ipv4_addr (rr_text each_answer) (dict_cache w) of
        Inl e \<Rightarrow> Raise e
      | Inr (ns_address, dc) \<Rightarrow>
          (case recursive_resolver env n target_name qtype ns_address (w\<lparr>dict_cache := dc\<rparr>) of
             OutOfFuel \<Rightarrow> OutOfFuel
           | Raise e \<Rightarrow> Raise e
           | Ok None w' \<Rightarrow> ns_answer_loop env n target_name qtype rest w'
           | Ok (Some ns_next_res) w' \<Rightarrow> Ok (Return (Some ns_next_res)) w'))"
  by pat_completeness auto

text \<open>Termination: the fuel first; at equal fuel the loops lie above the resolver they call
  and each above the loops nested in it; a loop's own step shortens its list.\<close>

termination
  by (relation "inv_image (less_than <*lex*> less_than <*lex*> less_than)
        (case_sum
           (case_sum (\<lambda>(env, n, target_name, qtype, servers, w). (n, 0, 0))
                     (\<lambda>(env, n, q, target_name, qtype, servers, w). (n, 4, length servers)))
           (case_sum (\<lambda>(env, n, target_name, qtype, auths, ns_list, w). (n, 3, length auths))
              (case_sum (\<lambda>(env, n, target_name, qtype, names, w). (n, 2, length names))
                        (\<lambda>(env, n, target_name, qtype, rrs, w). (n, Suc 0, length rrs)))))")
     auto

subsection \<open>lookup\<close>

definition lookup ::
  "('q, 'n) env \<Rightarrow> nat \<Rightarrow> string \<Rightarrow> nat \<Rightarrow> 'n world \<Rightarrow> (message option, 'n world) outcome" where
  "lookup env n target_name qtype w =
     (case index_m2 (split_dot target_name) of
        Inl e \<Rightarrow> Raise e
      | Inr domain1 \<Rightarrow>
          (case dict_cache w domain1 of
             Some cache_ip_address \<Rightarrow> recursive_resolver env n target_name qtype cache_ip_address w
           | None \<Rightarrow> recursive_resolver env n target_name qtype ROOT_SERVERS w))"

subsection \<open>collect\_results\<close>

text \<open>The CNAME step: every record of the answer section is appended, and every record
  overwrites \<open>target_name\<close>.\<close>

fun cname_rrset ::
  "string \<Rightarrow> rdata list \<Rightarrow> (rdata \<times> string) list \<Rightarrow> string \<Rightarrow> (rdata \<times> string) list \<times> string" where
  "cname_rrset name [] cn target_name = (cn, target_name)"
| "cname_rrset name (ans # rest) cn target_name =
     cname_rrset name rest (cn @ [(ans, name)]) (butlast (to_text ans))"

fun cname_loop ::
  "string \<Rightarrow> rrset list \<Rightarrow> (rdata \<times> string) list \<Rightarrow> string \<Rightarrow> (rdata \<times> string) list \<times> string" where
  "cname_loop name [] cn target_name = (cn, target_name)"
| "cname_loop name (answers # rest) cn target_name =
     (case cname_rrset name (items answers) cn target_name of
        (cn', target_name') \<Rightarrow> cname_loop name rest cn' target_name')"

definition cname_step ::
  "string \<Rightarrow> message option \<Rightarrow> string \<Rightarrow> (rdata \<times> string) list \<times> string" where
  "cname_step name response target_name =
     (case response of
        None \<Rightarrow> ([], target_name)
      | Some r \<Rightarrow> cname_loop name (answer r) [] target_name)"

text \<open>The A step and the AAAA step are the same loops, with the constants 1 and 28:
  \<open>rtype\<close> is that constant.\<close>

fun address_rrset ::
  "nat \<Rightarrow> string \<Rightarrow> rdata list \<Rightarrow> (string \<times> string) list \<Rightarrow> (string \<times> string) list" where
  "address_rrset rtype a_name [] recs = recs"
| "address_rrset rtype a_name (ans # rest) recs =
     (if rdtype ans = rtype then address_rrset rtype a_name rest (recs @ [(a_name, to_text ans)])
      else address_rrset rtype a_name rest recs)"

fun address_loop :: "nat \<Rightarrow> rrset list \<Rightarrow> (string \<times> string) list \<Rightarrow> (string \<times> string) list" where
  "address_loop rtype [] recs = recs"
| "address_loop rtype (answers # rest) recs =
     address_loop rtype rest (address_rrset rtype (rr_name answers) (items answers) recs)"

definition address_step :: "nat \<Rightarrow> message option \<Rightarrow> (string \<times> string) list" where
  "address_step rtype response =
     (case response of None \<Rightarrow> [] | Some r \<Rightarrow> address_loop rtype (answer r) [])"

fun mx_rrset ::
  "string \<Rightarrow> rdata list \<Rightarrow> (string \<times> nat \<times> string) list \<Rightarrow> (string \<times> nat \<times> string) list" where
  "mx_rrset mx_name [] recs = recs"
| "mx_rrset mx_name (ans # rest) recs =
     (if rdtype ans = 15
      then mx_rrset mx_name rest (recs @ [(mx_name, preference ans, exchange ans)])
      else mx_rrset mx_name rest recs)"

fun mx_loop :: "rrset list \<Rightarrow> (string \<times> nat \<times> string) list \<Rightarrow> (string \<times> nat \<times> string) list" where
  "mx_loop [] recs = recs"
| "mx_loop (answers # rest) recs = mx_loop rest (mx_rrset (rr_name answers) (items answers) recs)"

definition mx_step :: "message option \<Rightarrow> (string \<times> nat \<times> string) list" where
  "mx_step response = (case response of None \<Rightarrow> [] | Some r \<Rightarrow> mx_loop (answer r) [])"

text \<open>The four lookups in the order of the source (CNAME is type 5, A is 1, AAAA is 28,
  MX is 15). Nothing in \<open>collect_results\<close> catches an exception.\<close>

definition collect_results ::
  "('q, 'n) env \<Rightarrow> nat \<Rightarrow> string \<Rightarrow> 'n world \<Rightarrow> (full_response, 'n world) outcome" where
  "collect_results env n name w =
     (case from_text env name of
        None \<Rightarrow> Raise DNSException
      | Some target_name \<Rightarrow>
          (case lookup env n target_name 5 w of
             OutOfFuel \<Rightarrow> OutOfFuel
           | Raise e \<Rightarrow> Raise e
           | Ok response1 w1 \<Rightarrow>
               (case lookup env n (snd (cname_step name response1 target_name)) 1 w1 of
                  OutOfFuel \<Rightarrow> OutOfFuel
                | Raise e \<Rightarrow> Raise e
                | Ok response2 w2 \<Rightarrow>
                    (case lookup env n (snd (cname_step name response1 target_name)) 28 w2 of
                       OutOfFuel \<Rightarrow> OutOfFuel
                     | Raise e \<Rightarrow> Raise e
                     | Ok response3 w3 \<Rightarrow>
                         (case lookup env n (snd (cname_step name response1 target_name)) 15 w3 of
                            OutOfFuel \<Rightarrow> OutOfFuel
                          | Raise e \<Rightarrow> Raise e
                          | Ok response4 w4 \<Rightarrow>
                              Ok \<lparr>cnames = fst (cname_step name response1 target_name),
                                  arecords = address_step 1 response2,
                                  aaaarecords = address_step 28 response3,
                                  mxrecords = mx_step response4\<rparr> w4)))))"

subsection \<open>main\<close>

text \<open>The loop that removes repeated names from the argument list, keeping first occurrences.\<close>

fun argument_loop :: "string list \<Rightarrow> string list \<Rightarrow> string list" where
  "argument_loop [] argument_list = argument_list"
| "argument_loop (x # xs) argument_list =
     (if x \<notin> set argument_list then argument_loop xs (argument_list @ [x])
      else argument_loop xs argument_list)"

text \<open>The loop over the names (the source has three copies of it). \<open>printed\<close> collects the
  results handed to \<open>print_results\<close>, in order.\<close>

fun main_loop ::
  "('q, 'n) env \<Rightarrow> nat \<Rightarrow> string list \<Rightarrow> full_response list \<Rightarrow> 'n world \<Rightarrow>
   (full_response list, 'n world) outcome" where
  "main_loop env n [] printed w = Ok printed w"
| "main_loop env n (a_domain_name # rest) printed w =
     (case domain_cache w a_domain_name of
        Some stored \<Rightarrow> main_loop env n rest (printed @ [stored]) w
      | None \<Rightarrow>
          (case collect_results env n a_domain_name w of
             OutOfFuel \<Rightarrow> OutOfFuel
           | Raise e \<Rightarrow> Raise e
           | Ok result w' \<Rightarrow>
               main_loop env n rest (printed @ [result])
                 (w'\<lparr>domain_cache := (domain_cache w')(a_domain_name \<mapsto> result)\<rparr>)))"

definition main ::
  "('q, 'n) env \<Rightarrow> nat \<Rightarrow> string list \<Rightarrow> 'n world \<Rightarrow> (full_response list, 'n world) outcome" where
  "main env n names w =
     (if length names \<le> 1 then main_loop env n names [] w
      else if length names > 1 then main_loop env n (argument_loop names []) [] w
      else main_loop env n names [] w)"

subsection \<open>The claim of the specification about the cache key\<close>

text \<open>
  The specification's words for the key of the Label Cache: the labels of a name are the
  dot-separated pieces of its text, the empty root label that ends an absolute name left
  out; the top-level label is the last of them, and the key is the label immediately
  before it.
\<close>

definition spec_labels :: "string \<Rightarrow> string list" where
  "spec_labels name =
     (if split_dot name \<noteq> [] \<and> last (split_dot name) = [] then butlast (split_dot name)
      else split_dot name)"

definition spec_cache_label :: "string \<Rightarrow> py_error + string" where
  "spec_cache_label name = index_m2 (spec_labels name)"


subsection \<open>Vocabulary for the candidates of a list\<close>






subsection \<open>A scripted library, for running the program on concrete inputs\<close>

text \<open>
  The network state is the log of the exchanges attempted, each with the name and type
  queried and the server addressed; the reply to an exchange is read from a table, and an
  exchange that the table does not list times out. \<open>from_text\<close> makes a name absolute.
\<close>

definition scripted ::
  "((string \<times> nat \<times> string) \<times> message) list \<Rightarrow>
   (string \<times> nat, (string \<times> nat \<times> string) list) env" where
  "scripted table =
     \<lparr>from_text = (\<lambda>name. Some (if name \<noteq> [] \<and> last name = CHR ''.'' then name
                                  else name @ ''.'')),
      make_query = (\<lambda>target_name qtype. Some (target_name, qtype)),
      udp = (\<lambda>q server log.
               (map_of table (fst q, snd q, server), log @ [(fst q, snd q, server)]))\<rparr>"

definition world0 :: "(string \<times> nat \<times> string) list world" where
  "world0 = \<lparr>dict_cache = Map.empty, domain_cache = Map.empty, net = []\<rparr>"

definition world_com :: "(string \<times> nat \<times> string) list world" where
  "world_com = \<lparr>dict_cache = [''com'' \<mapsto> [''10.0.0.1'']], domain_cache = Map.empty, net = []\<rparr>"

definition mk_rdata :: "nat \<Rightarrow> string \<Rightarrow> rdata" where
  "mk_rdata t txt = \<lparr>rdtype = t, to_text = txt, preference = 0, exchange = []\<rparr>"

definition mk_rrset :: "string \<Rightarrow> rdata list \<Rightarrow> string \<Rightarrow> rrset" where
  "mk_rrset owner rds txt = \<lparr>rr_name = owner, items = rds, rr_text = txt\<rparr>"

definition mk_message :: "rrset list \<Rightarrow> rrset list \<Rightarrow> rrset list \<Rightarrow> message" where
  "mk_message ans auth add = \<lparr>answer = ans, authority = auth, additional = add\<rparr>"

text \<open>The records of the scenarios.\<close>

definition cname_www :: rrset where
  "cname_www = mk_rrset ''www.example.com.'' [mk_rdata 5 ''web.example.com.'']
                 ''www.example.com. 300 IN CNAME web.example.com.''"

definition cname_web :: rrset where
  "cname_web = mk_rrset ''web.example.com.'' [mk_rdata 5 ''host.example.net.'']
                 ''web.example.com. 300 IN CNAME host.example.net.''"

definition a_web :: rrset where
  "a_web = mk_rrset ''web.example.com.'' [mk_rdata 1 ''192.0.2.10'']
             ''web.example.com. 300 IN A 192.0.2.10''"

definition cname_localhost :: rrset where
  "cname_localhost = mk_rrset ''www.example.com.'' [mk_rdata 5 ''localhost.'']
                       ''www.example.com. 300 IN CNAME localhost.''"

definition dname_example :: rrset where
  "dname_example = mk_rrset ''example.com.'' [mk_rdata 39 ''example.net.'']
                     ''example.com. 300 IN DNAME example.net.''"

definition ns_example :: rrset where
  "ns_example = mk_rrset ''example.com.'' [mk_rdata 2 ''ns1.example.net.'']
                  ''example.com. 300 IN NS ns1.example.net.''"

definition soa_example :: rrset where
  "soa_example = mk_rrset ''example.com.''
                   [mk_rdata 6 ''ns1.example.net. admin.example.com. 1 7200 900 1209600 86400'']
                   ''example.com. 300 IN SOA ns1.example.net. admin.example.com. 1 7200 900 1209600 86400''"

definition a_ns1 :: rrset where
  "a_ns1 = mk_rrset ''ns1.example.net.'' [mk_rdata 1 ''192.0.2.53'']
             ''ns1.example.net. 300 IN A 192.0.2.53''"

definition a_example :: rrset where
  "a_example = mk_rrset ''example.com.'' [mk_rdata 1 ''93.184.216.34'']
                 ''example.com. 300 IN A 93.184.216.34''"

text \<open>The tables of the scenarios.\<close>

definition alias_to_localhost :: "((string \<times> nat \<times> string) \<times> message) list" where
  "alias_to_localhost =
     [((''www.example.com.'', 5, ''198.41.0.4''), mk_message [cname_localhost] [] [])]"

definition cname_query_with_address :: "((string \<times> nat \<times> string) \<times> message) list" where
  "cname_query_with_address =
     [((''www.example.com.'', 5, ''198.41.0.4''), mk_message [cname_www, a_web] [] [])]"

definition unusable_then_referral :: "((string \<times> nat \<times> string) \<times> message) list" where
  "unusable_then_referral =
     [((''example.com.'', 1, ''10.0.0.1''), mk_message [dname_example] [] []),
      ((''example.com.'', 1, ''10.0.0.2''), mk_message [] [ns_example] [a_ns1])]"

definition alias_before_address :: "((string \<times> nat \<times> string) \<times> message) list" where
  "alias_before_address =
     [((''www.example.com.'', 1, ''10.0.0.1''), mk_message [cname_www, a_web] [] [])]"

definition address_only :: "((string \<times> nat \<times> string) \<times> message) list" where
  "address_only =
     [((''example.com.'', 1, ''10.0.0.1''), mk_message [a_example] [] [])]"

definition alias_answers :: "((string \<times> nat \<times> string) \<times> message) list" where
  "alias_answers =
     [((''www.example.com.'', 5, ''10.0.0.1''), mk_message [cname_www] [] []),
      ((''www.example.com.'', 1, ''10.0.0.1''), mk_message [cname_www, cname_web] [] [])]"


definition soa_only :: "((string \<times> nat \<times> string) \<times> message) list" where
  "soa_only =
     [((''example.com.'', 1, ''10.0.0.1''), mk_message [] [soa_example] [])]"






definition empty_response :: full_response where
  "empty_response = \<lparr>cnames = [], arecords = [], aaaarecords = [], mxrecords = []\<rparr>"

section \<open>Properties\<close>

subsection \<open>The loops of collect\_results in closed form\<close>

lemma cname_rrset_eq:
  "cname_rrset name rs cn tn =
     (cn @ map (\<lambda>a. (a, name)) rs, if rs = [] then tn else butlast (to_text (last rs)))"
  by (induction rs arbitrary: cn tn) auto

lemma cname_loop_eq:
  "cname_loop name rrs cn tn =
     (cn @ map (\<lambda>a. (a, name)) (concat (map items rrs)),
      if concat (map items rrs) = [] then tn
      else butlast (to_text (last (concat (map items rrs)))))"
  by (induction rrs arbitrary: cn tn) (auto simp: cname_rrset_eq)

lemma address_rrset_eq:
  "address_rrset rtype a_name rs recs =
     recs @ map (\<lambda>a. (a_name, to_text a)) (filter (\<lambda>a. rdtype a = rtype) rs)"
  by (induction rs arbitrary: recs) auto

lemma address_loop_eq:
  "address_loop rtype rrs recs =
     recs @ concat (map (\<lambda>answers. map (\<lambda>a. (rr_name answers, to_text a))
                            (filter (\<lambda>a. rdtype a = rtype) (items answers))) rrs)"
  by (induction rrs arbitrary: recs) (auto simp: address_rrset_eq)

lemma mx_rrset_eq:
  "mx_rrset mx_name rs recs =
     recs @ map (\<lambda>a. (mx_name, preference a, exchange a)) (filter (\<lambda>a. rdtype a = 15) rs)"
  by (induction rs arbitrary: recs) auto

lemma mx_loop_eq:
  "mx_loop rrs recs =
     recs @ concat (map (\<lambda>answers. map (\<lambda>a. (rr_name answers, preference a, exchange a))
                            (filter (\<lambda>a. rdtype a = 15) (items answers))) rrs)"
  by (induction rrs arbitrary: recs) (auto simp: mx_rrset_eq)

lemma collect_results_steps:
  assumes "from_text env name = Some tn"
      and "lookup env n tn 5 w = Ok r1 w1"
      and "lookup env n (snd (cname_step name r1 tn)) 1 w1 = Ok r2 w2"
      and "lookup env n (snd (cname_step name r1 tn)) 28 w2 = Ok r3 w3"
      and "lookup env n (snd (cname_step name r1 tn)) 15 w3 = Ok r4 w4"
  shows "collect_results env n name w =
           Ok \<lparr>cnames = fst (cname_step name r1 tn), arecords = address_step 1 r2,
               aaaarecords = address_step 28 r3, mxrecords = mx_step r4\<rparr> w4"
  using assms by (simp add: collect_results_def)

lemma scenario_eval:
  "mk_rdata t txt = \<lparr>rdtype = t, to_text = txt, preference = 0, exchange = []\<rparr>"
  "mk_rrset owner rds txt2 = \<lparr>rr_name = owner, items = rds, rr_text = txt2\<rparr>"
  "mk_message ans auth add = \<lparr>answer = ans, authority = auth, additional = add\<rparr>"
  by (simp_all add: mk_rdata_def mk_rrset_def mk_message_def)

subsection \<open>The loop of ipv4\_addr\<close>

text \<open>The loop raises only where it takes the second-to-last piece of the first token;
  it writes the cache under that piece only.\<close>

lemma ipv4_addr_loop_returns:
  assumes "index_m2 (split_dot first) = Inr key"
  shows "\<exists>found dc'. ipv4_addr_loop (first # others) rows found0 dc = Inr (found, dc')"
  using assms by (induction rows arbitrary: found0 dc) (auto split: option.splits)

lemma ipv4_addr_loop_other_keys:
  assumes "ipv4_addr_loop (first # others) rows found0 dc = Inr (found, dc')"
      and "index_m2 (split_dot first) = Inr key"
      and "k \<noteq> key"
  shows "dc' k = dc k"
  using assms
proof (induction rows arbitrary: found0 dc)
  case Nil
  then show ?case by simp
next
  case (Cons row rows)
  show ?case
  proof (cases "row = ''A''")
    case False
    with Cons show ?thesis by simp
  next
    case True
    show ?thesis
    proof (cases "dc key")
      case None
      with True Cons.prems(1,2)
      have "ipv4_addr_loop (first # others) rows [last (first # others)]
              (dc(key \<mapsto> [last (first # others)])) = Inr (found, dc')"
        by simp
      from Cons.IH[OF this Cons.prems(2,3)] Cons.prems(3) show ?thesis by simp
    next
      case (Some stored)
      show ?thesis
      proof (cases "last (first # others) \<in> set stored")
        case True
        with \<open>row = ''A''\<close> Some Cons.prems(1,2)
        have "ipv4_addr_loop (first # others) rows [last (first # others)] dc = Inr (found, dc')"
          by simp
        from Cons.IH[OF this Cons.prems(2,3)] show ?thesis .
      next
        case False
        with \<open>row = ''A''\<close> Some Cons.prems(1,2)
        have "ipv4_addr_loop (first # others) rows [last (first # others)]
                (dc(key \<mapsto> stored @ [last (first # others)])) = Inr (found, dc')"
          by simp
        from Cons.IH[OF this Cons.prems(2,3)] Cons.prems(3) show ?thesis by simp
      qed
    qed
  qed
qed

text \<open>What the address loop leaves behind once it has met the token \<open>A\<close>.\<close>

lemma ipv4_addr_loop_records:
  assumes "ipv4_addr_loop (first # others) rows found0 dc = Inr (found, dc')"
      and "index_m2 (split_dot first) = Inr key"
      and "''A'' \<in> set rows \<or>
           (found0 = [last (first # others)] \<and> (\<exists>stored. dc key = Some stored \<and> last (first # others) \<in> set stored))"
  shows "found = [last (first # others)] \<and> (\<exists>stored. dc' key = Some stored \<and> last (first # others) \<in> set stored)"
  using assms
proof (induction rows arbitrary: found0 dc)
  case Nil
  then show ?case by simp
next
  case (Cons row rows)
  show ?case
  proof (cases "row = ''A''")
    case False
    with Cons.prems have "ipv4_addr_loop (first # others) rows found0 dc = Inr (found, dc')" by simp
    moreover from False Cons.prems(3) have "''A'' \<in> set rows \<or>
           (found0 = [last (first # others)] \<and> (\<exists>stored. dc key = Some stored \<and> last (first # others) \<in> set stored))"
      by auto
    ultimately show ?thesis using Cons.IH Cons.prems(2) by blast
  next
    case True
    show ?thesis
    proof (cases "dc key")
      case None
      with True Cons.prems(1,2)
      have "ipv4_addr_loop (first # others) rows [last (first # others)] (dc(key \<mapsto> [last (first # others)])) = Inr (found, dc')"
        by simp
      then show ?thesis using Cons.IH[OF _ Cons.prems(2)] by simp
    next
      case (Some stored)
      show ?thesis
      proof (cases "last (first # others) \<in> set stored")
        case True
        with \<open>row = ''A''\<close> Some Cons.prems(1,2)
        have "ipv4_addr_loop (first # others) rows [last (first # others)] dc = Inr (found, dc')" by simp
        then show ?thesis using Cons.IH[OF _ Cons.prems(2)] Some True by simp
      next
        case False
        with \<open>row = ''A''\<close> Some Cons.prems(1,2)
        have "ipv4_addr_loop (first # others) rows [last (first # others)] (dc(key \<mapsto> stored @ [last (first # others)])) = Inr (found, dc')"
          by simp
        then show ?thesis using Cons.IH[OF _ Cons.prems(2)] by simp
      qed
    qed
  qed
qed


subsection \<open>Candidates that do not answer\<close>

lemma server_loop_all_fail:
  "\<forall>s\<in>set servers. \<forall>nt. fst (udp env q s nt) = None \<Longrightarrow>
   \<exists>nt. server_loop env n q tn qtype servers w = Ok None (w\<lparr>net := nt\<rparr>)"
proof (induction servers arbitrary: w)
  case Nil
  show ?case by (rule exI[of _ "net w"]) simp
next
  case (Cons s rest)
  obtain nt where u: "udp env q s (net w) = (None, nt)"
    using Cons.prems by (metis fst_conv list.set_intros(1) surj_pair)
  from Cons.IH[of "w\<lparr>net := nt\<rparr>"] Cons.prems
  obtain nt' where "server_loop env n q tn qtype rest (w\<lparr>net := nt\<rparr>) = Ok None (w\<lparr>net := nt, net := nt'\<rparr>)"
    by auto
  with u show ?case by auto
qed

lemma length_split_on: "length (split_on sep cur s) = Suc (length (filter (\<lambda>c. c = sep) s))"
  by (induction s arbitrary: cur) auto

lemma index_m2_split_dot:
  "CHR ''.'' \<in> set tn \<Longrightarrow> \<exists>k. index_m2 (split_dot tn) = Inr k"
proof -
  assume "CHR ''.'' \<in> set tn"
  then have "filter (\<lambda>c. c = CHR ''.'') tn \<noteq> []"
    by (simp add: filter_empty_conv)
  then have "0 < length (filter (\<lambda>c. c = CHR ''.'') tn)" by simp
  then show ?thesis
    by (simp add: index_m2_def split_dot_def length_split_on)
qed

lemma resolver_all_fail:
  assumes "make_query env tn qtype = Some q"
      and "\<forall>s\<in>set servers. \<forall>nt. fst (udp env q s nt) = None"
  shows "\<exists>nt. recursive_resolver env (Suc n) tn qtype servers w = Ok None (w\<lparr>net := nt\<rparr>)"
proof (cases "servers = []")
  case True
  with True show ?thesis by (intro exI[of _ "net w"]) simp
next
  case False
  with assms server_loop_all_fail[OF assms(2), of n tn qtype w] show ?thesis by simp
qed

lemma lookup_all_fail:
  assumes "make_query env tn qtype = Some q"
      and "\<forall>s nt. fst (udp env q s nt) = None"
      and "CHR ''.'' \<in> set tn"
  shows "\<exists>nt. lookup env (Suc n) tn qtype w = Ok None (w\<lparr>net := nt\<rparr>)"
proof -
  obtain k where k: "index_m2 (split_dot tn) = Inr k"
    using index_m2_split_dot[OF assms(3)] by blast
  have "\<exists>nt. recursive_resolver env (Suc n) tn qtype servers w = Ok None (w\<lparr>net := nt\<rparr>)" for servers
    using resolver_all_fail[OF assms(1)] assms(2) by blast
  with k show ?thesis
    by (simp add: lookup_def split: option.split)
qed

subsection \<open>The scans of the answer and authority sections\<close>

lemma scan_answer_flat:
  "scan_answer qtype tn rrsets = scan_rrset qtype tn (concat (map items rrsets))"
proof (induction rrsets arbitrary: tn)
  case Nil
  show ?case by simp
next
  case (Cons answers rest)
  have split: "scan_rrset qtype tn (xs @ ys) =
      (case scan_rrset qtype tn xs of NoMatch tn' \<Rightarrow> scan_rrset qtype tn' ys
       | Match \<Rightarrow> Match | Alias a \<Rightarrow> Alias a)" for xs ys tn
    by (induction xs arbitrary: tn) auto
  show ?case
    by (simp add: split Cons.IH split: scan.split)
qed

lemma scan_rrset_first_match:
  assumes "\<forall>b\<in>set pre. rdtype b \<noteq> qtype \<and> rdtype b \<noteq> 5" and "rdtype a = qtype"
  shows "scan_rrset qtype tn (pre @ a # post) = Match"
  using assms by (induction pre arbitrary: tn) auto

lemma scan_rrset_first_alias:
  assumes "\<forall>b\<in>set pre. rdtype b \<noteq> qtype \<and> rdtype b \<noteq> 5" and "rdtype c = 5" and "qtype \<noteq> 5"
  shows "scan_rrset qtype tn (pre @ c # post) = Alias (butlast (to_text c))"
  using assms by (induction pre arbitrary: tn) auto



subsection \<open>The key of the Label Cache\<close>

text \<open>Splitting at the dots undoes joining with dots.\<close>

lemma split_on_no_sep:
  "sep \<notin> set l \<Longrightarrow> split_on sep cur (l @ s) = split_on sep (cur @ l) s"
  by (induction l arbitrary: cur) auto

lemma split_on_dotted:
  assumes "\<forall>l\<in>set ls. CHR ''.'' \<notin> set l" and "ls \<noteq> []"
  shows "split_on (CHR ''.'') cur (dotted ls) = (cur @ hd ls) # tl ls"
  using assms
proof (induction ls arbitrary: cur rule: dotted.induct)
  case 1
  then show ?case by simp
next
  case (2 l)
  then have "CHR ''.'' \<notin> set l" by simp
  from split_on_no_sep[OF this, of cur "[]"] show ?case by simp
next
  case (3 l m ls)
  then have l: "CHR ''.'' \<notin> set l" by simp
  have "split_on (CHR ''.'') [] (dotted (m # ls)) = ([] @ hd (m # ls)) # tl (m # ls)"
    using 3 by (intro "3.IH") auto
  then show ?case
    using split_on_no_sep[OF l, of cur "CHR ''.'' # dotted (m # ls)"] by simp
qed

lemma split_dot_dotted:
  assumes "\<forall>l\<in>set ls. CHR ''.'' \<notin> set l" and "ls \<noteq> []"
  shows "split_dot (dotted ls) = ls"
  using split_on_dotted[OF assms, of "[]"] assms(2) by (simp add: split_dot_def)

text \<open>
  Claim C1, as amended. The key of the Label Cache is the second-to-last of the pieces
  that the text of a name falls into at its dots, in \<open>lookup\<close> for the queried name and
  in \<open>ipv4_addr\<close> for the owner name of the record, which is the first token of the
  record's text: \<open>lookup\<close> resolves against the list stored under that piece, or against
  the root servers when there is none, and \<open>ipv4_addr\<close> stores the address it finds under
  that piece and touches no other entry. For a text without a final dot the piece is the
  label immediately before the top-level label, as the specification says; for a text
  with its final dot, which is how the library renders the names that \<open>collect_results\<close>
  parses and the owners of records, the last piece is empty and the key is the top-level
  label itself.
\<close>

theorem cache_key_is_second_last_piece:
  assumes "\<forall>l\<in>set ls. CHR ''.'' \<notin> set l" and "2 \<le> length ls"
  shows "lookup env n (dotted ls) qtype w
           = recursive_resolver env n (dotted ls) qtype
               (case dict_cache w (ls ! (length ls - 2)) of
                  Some cache_ip_address \<Rightarrow> cache_ip_address | None \<Rightarrow> ROOT_SERVERS) w
       \<and> (py_split s = dotted ls # others \<and> ''A'' \<in> set others \<longrightarrow>
            (\<exists>dc' stored. ipv4_addr s dc = Inr ([last others], dc') \<and>
               dc' (ls ! (length ls - 2)) = Some stored \<and> last others \<in> set stored \<and>
               (\<forall>k. k \<noteq> ls ! (length ls - 2) \<longrightarrow> dc' k = dc k)))
       \<and> (last ls \<noteq> [] \<longrightarrow> spec_cache_label (dotted ls) = Inr (ls ! (length ls - 2)))
       \<and> (last ls = [] \<longrightarrow> ls ! (length ls - 2) = last (spec_labels (dotted ls)))"
proof (intro conjI impI)
  from assms(2) have ne: "ls \<noteq> []" by auto
  have sp: "split_dot (dotted ls) = ls" using assms(1) ne by (rule split_dot_dotted)
  have key: "index_m2 (split_dot (dotted ls)) = Inr (ls ! (length ls - 2))"
    using assms(2) by (simp add: sp index_m2_def)
  show "lookup env n (dotted ls) qtype w
           = recursive_resolver env n (dotted ls) qtype
               (case dict_cache w (ls ! (length ls - 2)) of
                  Some cache_ip_address \<Rightarrow> cache_ip_address | None \<Rightarrow> ROOT_SERVERS) w"
    by (simp add: lookup_def key split: option.split)
  {
    assume pr: "py_split s = dotted ls # others \<and> ''A'' \<in> set others"
    then have toks: "py_split s = dotted ls # others" and row: "''A'' \<in> set others"
      by simp_all
    from row have o: "others \<noteq> []" by auto
    obtain found dc' where
      run: "ipv4_addr_loop (dotted ls # others) (dotted ls # others) [] dc = Inr (found, dc')"
      using ipv4_addr_loop_returns[OF key] by blast
    from row have "''A'' \<in> set (dotted ls # others) \<or>
        ([] = [last (dotted ls # others)] \<and>
         (\<exists>stored. dc (ls ! (length ls - 2)) = Some stored \<and> last (dotted ls # others) \<in> set stored))"
      by simp
    from ipv4_addr_loop_records[OF run key this]
    obtain stored where f: "found = [last (dotted ls # others)]"
      and st: "dc' (ls ! (length ls - 2)) = Some stored" "last (dotted ls # others) \<in> set stored"
      by blast
    from o have l: "last (dotted ls # others) = last others" by simp
    have oth: "\<forall>k. k \<noteq> ls ! (length ls - 2) \<longrightarrow> dc' k = dc k"
      using ipv4_addr_loop_other_keys[OF run key] by blast
    have r: "ipv4_addr s dc = Inr ([last others], dc')"
      using run f l by (simp add: ipv4_addr_def toks)
    from st l have st': "dc' (ls ! (length ls - 2)) = Some stored" "last others \<in> set stored"
      by simp_all
    show "\<exists>dc' stored. ipv4_addr s dc = Inr ([last others], dc') \<and>
               dc' (ls ! (length ls - 2)) = Some stored \<and> last others \<in> set stored \<and>
               (\<forall>k. k \<noteq> ls ! (length ls - 2) \<longrightarrow> dc' k = dc k)"
      using r st' oth by (intro exI[of _ dc'] exI[of _ stored] conjI)
  }
  {
    assume "last ls \<noteq> []"
    then show "spec_cache_label (dotted ls) = Inr (ls ! (length ls - 2))"
      using assms(2) by (simp add: spec_cache_label_def spec_labels_def sp index_m2_def)
  }
  {
    assume e: "last ls = []"
    with ne have "ls = butlast ls @ [[]]" by (metis append_butlast_last_id)
    then obtain xs where xs: "ls = xs @ [[]]" by blast
    from assms(2) xs have x: "xs \<noteq> []" by auto
    have "spec_labels (dotted ls) = butlast ls" using e ne by (simp add: spec_labels_def sp)
    moreover have "butlast ls = xs" by (simp add: xs)
    ultimately have "spec_labels (dotted ls) = xs" by simp
    moreover have "length ls - 2 = length xs - 1" by (simp add: xs)
    moreover from x have "length xs - 1 < length xs" by simp
    ultimately show "ls ! (length ls - 2) = last (spec_labels (dotted ls))"
      using x by (simp add: xs nth_append last_conv_nth)
  }
qed

theorem cache_key_is_second_last_piece_witness:
  "lookup (scripted []) 1 (dotted [''www'', ''example'', ''com'', []]) 1 world_com
       = recursive_resolver (scripted []) 1 (dotted [''www'', ''example'', ''com'', []]) 1 [''10.0.0.1''] world_com
   \<and> dotted [''www'', ''example'', ''com'', []] = ''www.example.com.''
   \<and> (\<exists>dc' stored. ipv4_addr ''www.example.com. 300 IN A 192.0.2.10'' Map.empty = Inr ([''192.0.2.10''], dc')
           \<and> dc' ''com'' = Some stored \<and> ''192.0.2.10'' \<in> set stored \<and> dc' ''example'' = None)
   \<and> spec_cache_label (dotted [''www'', ''example'', ''com'']) = Inr ''example''
   \<and> last (spec_labels (dotted [''www'', ''example'', ''com'', []])) = ''com''"
proof -
  have ls: "\<forall>l\<in>set [''www'', ''example'', ''com'', []]. CHR ''.'' \<notin> set l"
    "2 \<le> length [''www'', ''example'', ''com'', []::string]" by simp_all
  have ls': "\<forall>l\<in>set [''www'', ''example'', ''com'']. CHR ''.'' \<notin> set l"
    "2 \<le> length [''www'', ''example'', ''com'']" by simp_all
  have toks: "py_split ''www.example.com. 300 IN A 192.0.2.10''
      = dotted [''www'', ''example'', ''com'', []] # [''300'', ''IN'', ''A'', ''192.0.2.10''] \<and>
      ''A'' \<in> set [''300'', ''IN'', ''A'', ''192.0.2.10'']"
    by (simp add: py_split_def isspace_def)
  have ix: "[''www'', ''example'', ''com'', []] ! (length [''www'', ''example'', ''com'', []::string] - 2) = ''com''"
    "[''www'', ''example'', ''com''] ! (length [''www'', ''example'', ''com''] - 2) = ''example''"
    by simp_all
  have la: "last [''300'', ''IN'', ''A'', ''192.0.2.10''] = ''192.0.2.10''"
    "last [''www'', ''example'', ''com'', []] = ([]::string)" "last [''www'', ''example'', ''com''] \<noteq> []"
    by simp_all
  have dc: "dict_cache world_com ''com'' = Some [''10.0.0.1'']" by (simp add: world_com_def)
  note t = cache_key_is_second_last_piece [OF ls, where env = "scripted []" and n = 1 and qtype = 1
      and w = world_com and s = "''www.example.com. 300 IN A 192.0.2.10''"
      and others = "[''300'', ''IN'', ''A'', ''192.0.2.10'']" and dc = Map.empty, unfolded ix la]
  note u = cache_key_is_second_last_piece [OF ls', where env = "scripted []" and n = 1 and qtype = 1
      and w = world_com and s = "[]" and others = "[]" and dc = Map.empty, unfolded ix]
  have t1: "lookup (scripted []) 1 (dotted [''www'', ''example'', ''com'', []]) 1 world_com
       = recursive_resolver (scripted []) 1 (dotted [''www'', ''example'', ''com'', []]) 1 [''10.0.0.1''] world_com"
    using t[THEN conjunct1] unfolding dc by simp
  from t[THEN conjunct2, THEN conjunct1, THEN mp, OF toks]
  obtain dc' stored where
    r: "ipv4_addr ''www.example.com. 300 IN A 192.0.2.10'' Map.empty = Inr ([''192.0.2.10''], dc')"
    and st: "dc' ''com'' = Some stored" "''192.0.2.10'' \<in> set stored"
    and oth: "\<forall>k. k \<noteq> ''com'' \<longrightarrow> dc' k = Map.empty k"
    by blast
  from oth have ex: "dc' ''example'' = None" by simp
  have t2: "\<exists>dc' stored. ipv4_addr ''www.example.com. 300 IN A 192.0.2.10'' Map.empty = Inr ([''192.0.2.10''], dc')
           \<and> dc' ''com'' = Some stored \<and> ''192.0.2.10'' \<in> set stored \<and> dc' ''example'' = None"
    using r st ex by (intro exI[of _ dc'] exI[of _ stored] conjI)
  have t3: "spec_cache_label (dotted [''www'', ''example'', ''com'']) = Inr ''example''"
    using u[THEN conjunct2, THEN conjunct2, THEN conjunct1] la(3) by (rule mp)
  have t4: "last (spec_labels (dotted [''www'', ''example'', ''com'', []])) = ''com''"
    using t[THEN conjunct2, THEN conjunct2, THEN conjunct2, THEN mp, OF refl] by (rule sym)
  have d: "dotted [''www'', ''example'', ''com'', []] = ''www.example.com.''" by simp
  from t1 d t2 t3 t4 show ?thesis by (intro conjI)
qed

text \<open>
  Claim C1 as stated fails on names written with their final dot. With lists cached under
  both \<open>com\<close> and \<open>example\<close>, the lookup of \<open>www.example.com.\<close> asks the server cached
  under \<open>com\<close>, not the one under \<open>example\<close>; and the glue record of
  \<open>a.gtld-servers.net.\<close> is stored under \<open>net\<close>, with nothing under \<open>gtld-servers\<close>.
\<close>

theorem absolute_name_keyed_by_top_label:
  "spec_cache_label ''www.example.com.'' = Inr ''example''
   \<and> (\<exists>w'. lookup (scripted []) 1 ''www.example.com.'' 1
              (world0\<lparr>dict_cache := [''com'' \<mapsto> [''10.0.0.1''], ''example'' \<mapsto> [''10.0.0.2'']]\<rparr>)
            = Ok None w'
          \<and> net w' = [(''www.example.com.'', 1, ''10.0.0.1'')])
   \<and> spec_cache_label ''a.gtld-servers.net.'' = Inr ''gtld-servers''
   \<and> (\<exists>dc'. ipv4_addr ''a.gtld-servers.net. 172800 IN A 192.5.6.30'' Map.empty
              = Inr ([''192.5.6.30''], dc')
           \<and> dc' ''net'' = Some [''192.5.6.30''] \<and> dc' ''gtld-servers'' = None)"
  by (simp add: spec_cache_label_def spec_labels_def lookup_def split_dot_def index_m2_def
      scripted_def world0_def ipv4_addr_def py_split_def isspace_def)

subsection \<open>A referral with glue\<close>

text \<open>
  What the loop over the candidates does with a response that has an empty answer section
  and a non-empty additional section: the addresses that \<open>ipv4_addr\<close> finds in the records
  of the additional section, in order, are the candidates of a new resolution, for the
  name held in \<open>target_name\<close> and the same record type.
\<close>

lemma referral_with_glue:
  assumes "udp env q s (net w) = (Some r, nt)"
      and "answer r = []"
      and "additional r \<noteq> []"
      and "additional_loop (additional r) [] (dict_cache w) = Inr (address_list, dc)"
  shows "server_loop env n q tn qtype (s # rest) w
           = recursive_resolver env n tn qtype address_list (w\<lparr>net := nt, dict_cache := dc\<rparr>)"
  using assms by simp

text \<open>
  Claim C2. The claim says that the new resolution is for the unchanged original query
  name. Here the first candidate answers the query for the A records of
  \<open>example.com.\<close> with a DNAME record only, which the scan of the answer can use as
  neither a result nor an alias, but which has already overwritten \<open>target_name\<close>; the
  second candidate answers with a referral and glue, and the glued server is then asked
  for \<open>example.net\<close>, the text of the DNAME record less its final character.
\<close>

theorem overwritten_name_in_referral:
  "\<exists>w'. recursive_resolver (scripted unusable_then_referral) 2 ''example.com.'' 1
          [''10.0.0.1'', ''10.0.0.2''] world0 = Ok None w'
        \<and> net w' = [(''example.com.'', 1, ''10.0.0.1''), (''example.com.'', 1, ''10.0.0.2''),
                     (''example.net'', 1, ''192.0.2.53'')]"
  by (simp add: numeral_2_eq_2 scripted_def world0_def unusable_then_referral_def scenario_eval
      dname_example_def ns_example_def a_ns1_def ipv4_addr_def py_split_def isspace_def
      split_dot_def index_m2_def)

subsection \<open>An answer that holds a record of the requested type\<close>

text \<open>
  Claim C3, as amended. When a candidate's response has, in its answer section, a record of
  the requested type, and no record before it (in the order of the section) is a CNAME
  record or of the requested type, the loop over the candidates returns that whole message
  at once: the network state is the one the exchange left, so no other server is
  contacted. The same holds of \<open>recursive_resolver\<close> for the first candidate of its list.
\<close>

theorem matching_record_returns_message:
  assumes "udp env q s (net w) = (Some r, nt)"
      and "concat (map items (answer r)) = pre @ a # post"
      and "rdtype a = qtype"
      and "\<forall>b\<in>set pre. rdtype b \<noteq> qtype \<and> rdtype b \<noteq> 5"
  shows "server_loop env n q tn qtype (s # rest) w = Ok (Some r) (w\<lparr>net := nt\<rparr>)
       \<and> (make_query env tn qtype = Some q \<longrightarrow>
            recursive_resolver env (Suc n) tn qtype (s # rest) w = Ok (Some r) (w\<lparr>net := nt\<rparr>))"
proof -
  have ne: "answer r \<noteq> []" using assms(2) by auto
  have "scan_answer qtype tn (answer r) = Match"
    using scan_rrset_first_match[OF assms(4) assms(3)] assms(2) by (simp add: scan_answer_flat)
  with ne assms(1) show ?thesis by simp
qed

theorem matching_record_returns_message_witness:
  "recursive_resolver (scripted address_only) 1 ''example.com.'' 1 [''10.0.0.1'', ''10.0.0.2''] world0
     = Ok (Some (mk_message [a_example] [] [])) (world0\<lparr>net := [(''example.com.'', 1, ''10.0.0.1'')]\<rparr>)"
  using matching_record_returns_message [where env = "scripted address_only"
      and q = "(''example.com.'', 1)" and s = "''10.0.0.1''" and w = world0
      and r = "mk_message [a_example] [] []" and nt = "[(''example.com.'', 1, ''10.0.0.1'')]"
      and pre = "[]" and a = "mk_rdata 1 ''93.184.216.34''" and post = "[]" and qtype = 1
      and n = 0 and tn = "''example.com.''" and rest = "[''10.0.0.2'']"]
  by (simp add: scripted_def world0_def address_only_def scenario_eval a_example_def)

text \<open>
  Claim C3 as stated fails: the answer below holds an A record, the requested type is A,
  and the resolver does not return the message, because a CNAME record stands before the
  A record: it restarts from the root servers with the alias target, which no root server
  answers here, and returns \<open>None\<close> after fourteen exchanges.
\<close>

theorem matching_record_after_alias:
  "map_of alias_before_address (''www.example.com.'', 1, ''10.0.0.1'') = Some (mk_message [cname_www, a_web] [] [])
   \<and> map rdtype (concat (map items (answer (mk_message [cname_www, a_web] [] [])))) = [5, 1]
   \<and> (\<exists>w'. recursive_resolver (scripted alias_before_address) 2 ''www.example.com.'' 1 [''10.0.0.1''] world0
            = Ok None w'
          \<and> net w' = (''www.example.com.'', 1, ''10.0.0.1'') # map (\<lambda>s. (''web.example.com'', 1, s)) ROOT_SERVERS)"
  by (simp add: numeral_2_eq_2 scripted_def world0_def alias_before_address_def scenario_eval
      cname_www_def a_web_def ROOT_SERVERS_def)

subsection \<open>An answer that holds an alias\<close>

text \<open>
  Claim C4, as amended. When the requested type is not CNAME and, among the records of a
  candidate's answer section, the first one that is a CNAME record or of the requested
  type is a CNAME record, the loop over the candidates ends with a fresh resolution of the
  alias target (the text of that record less its final character), for the same record
  type, against the fixed list of root servers, whatever the current candidates are.
\<close>

theorem alias_restarts_from_root:
  assumes "udp env q s (net w) = (Some r, nt)"
      and "concat (map items (answer r)) = pre @ c # post"
      and "rdtype c = 5"
      and "qtype \<noteq> 5"
      and "\<forall>b\<in>set pre. rdtype b \<noteq> qtype \<and> rdtype b \<noteq> 5"
  shows "server_loop env n q tn qtype (s # rest) w
           = recursive_resolver env n (butlast (to_text c)) qtype ROOT_SERVERS (w\<lparr>net := nt\<rparr>)
       \<and> (make_query env tn qtype = Some q \<longrightarrow>
            recursive_resolver env (Suc n) tn qtype (s # rest) w
              = recursive_resolver env n (butlast (to_text c)) qtype ROOT_SERVERS (w\<lparr>net := nt\<rparr>))"
proof -
  have ne: "answer r \<noteq> []" using assms(2) by auto
  have "scan_answer qtype tn (answer r) = Alias (butlast (to_text c))"
    using scan_rrset_first_alias[OF assms(5) assms(3) assms(4)] assms(2)
    by (simp add: scan_answer_flat)
  with ne assms(1) show ?thesis by simp
qed

theorem alias_restarts_from_root_witness:
  "recursive_resolver (scripted alias_before_address) 2 ''www.example.com.'' 1 [''10.0.0.1'', ''10.0.0.2''] world0
     = recursive_resolver (scripted alias_before_address) 1 ''web.example.com'' 1 ROOT_SERVERS
         (world0\<lparr>net := [(''www.example.com.'', 1, ''10.0.0.1'')]\<rparr>)"
  using alias_restarts_from_root [where env = "scripted alias_before_address"
      and q = "(''www.example.com.'', 1)" and s = "''10.0.0.1''" and w = world0
      and r = "mk_message [cname_www, a_web] [] []" and nt = "[(''www.example.com.'', 1, ''10.0.0.1'')]"
      and pre = "[]" and c = "mk_rdata 5 ''web.example.com.''" and post = "[mk_rdata 1 ''192.0.2.10'']"
      and qtype = 1 and n = 1 and tn = "''www.example.com.''" and rest = "[''10.0.0.2'']"]
  by (simp add: numeral_2_eq_2 scripted_def world0_def alias_before_address_def scenario_eval
      cname_www_def a_web_def)

text \<open>
  Claim C4 as stated fails in two ways. When the requested type is CNAME itself, an answer
  with a CNAME record and nothing before it is returned as the result and no resolution is
  restarted. When the answer holds two CNAME records and the requested type is A, the
  second CNAME record has no record of the requested type before it, yet the restart is
  for the target of the first one.
\<close>

theorem alias_of_requested_type_or_second:
  "recursive_resolver (scripted alias_answers) 1 ''www.example.com.'' 5 [''10.0.0.1''] world0
     = Ok (Some (mk_message [cname_www] [] [])) (world0\<lparr>net := [(''www.example.com.'', 5, ''10.0.0.1'')]\<rparr>)
   \<and> map (\<lambda>a. (rdtype a, to_text a)) (concat (map items (answer (mk_message [cname_www, cname_web] [] []))))
       = [(5, ''web.example.com.''), (5, ''host.example.net.'')]
   \<and> (\<exists>w'. recursive_resolver (scripted alias_answers) 2 ''www.example.com.'' 1 [''10.0.0.1''] world0
            = Ok None w'
          \<and> net w' = (''www.example.com.'', 1, ''10.0.0.1'') # map (\<lambda>s. (''web.example.com'', 1, s)) ROOT_SERVERS)"
  by (simp add: numeral_2_eq_2 scripted_def world0_def alias_answers_def scenario_eval
      cname_www_def cname_web_def ROOT_SERVERS_def)

subsection \<open>An SOA record in the authority section\<close>








subsection \<open>Candidates whose exchange fails\<close>










subsection \<open>The four lookups of collect\_results\<close>

text \<open>
  Claim C7. The claim says that all four lookups are attempted for every name. Here the
  CNAME lookup for \<open>www.example.com\<close> returns an alias to \<open>localhost.\<close>; the target of
  the next lookup is then \<open>localhost\<close>, a text without a dot, on which \<open>lookup\<close> raises
  IndexError when it takes the second-to-last piece. Nothing catches it:
  \<open>collect_results\<close> raises, the A lookup sends no query, the AAAA and MX lookups are
  never reached, and no result is assembled.
\<close>

theorem alias_without_dot_aborts:
  "collect_results (scripted alias_to_localhost) 1 ''www.example.com'' world0 = Raise IndexError"
  by (simp add: collect_results_def lookup_def split_dot_def index_m2_def scripted_def world0_def
      alias_to_localhost_def ROOT_SERVERS_def scenario_eval cname_localhost_def cname_step_def)

subsection \<open>The Label Cache only grows\<close>















subsection \<open>What a resolution leaves in the Label Cache\<close>













text \<open>
  The address of a record is the last token of its text: of an RRset with two A records,
  which the library renders on two lines, only the address of the second line is returned
  and stored.
\<close>

lemma ipv4_addr_two_records:
  "ipv4_addr (''ns1.example.net. 300 IN A 192.0.2.53'' @ [CHR 0x0A]
                @ ''ns1.example.net. 300 IN A 192.0.2.54'') Map.empty
     = Inr ([''192.0.2.54''], [''net'' \<mapsto> [''192.0.2.54'']])"
  by (simp add: ipv4_addr_def py_split_def isspace_def split_dot_def index_m2_def)


subsection \<open>The Result Cache\<close>

lemma argument_loop_distinct:
  "distinct acc \<Longrightarrow>
   distinct (argument_loop xs acc) \<and> set (argument_loop xs acc) = set acc \<union> set xs"
  by (induction xs arbitrary: acc) auto

lemma argument_loop_short: "length names \<le> 1 \<Longrightarrow> argument_loop names [] = names"
  by (cases names) auto

text \<open>
  Claim C9, as amended. \<open>main\<close> runs its loop over the names given, with every repetition
  of a name (the same string, character for character) removed, so that a name given twice
  is collected over the network once and printed once, and its result is stored in the
  Result Cache under the string as given. Whenever the loop meets a name that is in the
  Result Cache it prints the stored result and leaves the state, the network included, as
  it is: run on a list that repeats a name, the loop itself would print the same result
  twice after one collection.
\<close>

theorem repeated_name_resolved_once:
  "main env n names w = main_loop env n (argument_loop names []) [] w
   \<and> distinct (argument_loop names []) \<and> set (argument_loop names []) = set names
   \<and> (domain_cache w x = Some stored \<longrightarrow>
        main_loop env n (x # rest) printed w = main_loop env n rest (printed @ [stored]) w)
   \<and> (domain_cache w x = None \<and> collect_results env n x w = Ok result w' \<longrightarrow>
        main env n [x, x] w = Ok [result] (w'\<lparr>domain_cache := (domain_cache w')(x \<mapsto> result)\<rparr>)
        \<and> main_loop env n [x, x] [] w
            = Ok [result, result] (w'\<lparr>domain_cache := (domain_cache w')(x \<mapsto> result)\<rparr>))"
proof (intro conjI impI)
  show "main env n names w = main_loop env n (argument_loop names []) [] w"
    by (simp add: main_def argument_loop_short)
  show "distinct (argument_loop names [])" "set (argument_loop names []) = set names"
    using argument_loop_distinct[of "[]" names] by simp_all
next
  assume "domain_cache w x = Some stored"
  then show "main_loop env n (x # rest) printed w = main_loop env n rest (printed @ [stored]) w"
    by simp
next
  assume a: "domain_cache w x = None \<and> collect_results env n x w = Ok result w'"
  then show "main env n [x, x] w = Ok [result] (w'\<lparr>domain_cache := (domain_cache w')(x \<mapsto> result)\<rparr>)"
    by (simp add: main_def)
  from a show "main_loop env n [x, x] [] w
            = Ok [result, result] (w'\<lparr>domain_cache := (domain_cache w')(x \<mapsto> result)\<rparr>)"
    by simp
qed

theorem repeated_name_resolved_once_witness:
  "domain_cache world0 ''example.com'' = None
   \<and> (\<exists>w'. collect_results (scripted []) 1 ''example.com'' world0 = Ok empty_response w'
          \<and> main (scripted []) 1 [''example.com'', ''example.com''] world0
              = Ok [empty_response] (w'\<lparr>domain_cache := (domain_cache w')(''example.com'' \<mapsto> empty_response)\<rparr>)
          \<and> main_loop (scripted []) 1 [''example.com'', ''example.com''] [] world0
              = Ok [empty_response, empty_response]
                  (w'\<lparr>domain_cache := (domain_cache w')(''example.com'' \<mapsto> empty_response)\<rparr>))
   \<and> argument_loop [''example.com'', ''example.com''] [] = [''example.com'']
   \<and> main_loop (scripted []) 1 [''example.com''] []
         (world0\<lparr>domain_cache := [''example.com'' \<mapsto> empty_response]\<rparr>)
       = Ok [empty_response] (world0\<lparr>domain_cache := [''example.com'' \<mapsto> empty_response]\<rparr>)"
proof -
  have d: "domain_cache world0 ''example.com'' = None" by (simp add: world0_def)
  have "\<exists>w'. collect_results (scripted []) 1 ''example.com'' world0 = Ok empty_response w'"
    by (simp add: collect_results_def lookup_def split_dot_def index_m2_def scripted_def
      world0_def ROOT_SERVERS_def cname_step_def address_step_def mx_step_def empty_response_def)
  then obtain w' where c: "collect_results (scripted []) 1 ''example.com'' world0 = Ok empty_response w'"
    by blast
  from repeated_name_resolved_once [where env = "scripted []" and n = 1 and w = world0
      and x = "''example.com''" and result = empty_response and w' = w'] d c
  have "main (scripted []) 1 [''example.com'', ''example.com''] world0
              = Ok [empty_response] (w'\<lparr>domain_cache := (domain_cache w')(''example.com'' \<mapsto> empty_response)\<rparr>)"
     "main_loop (scripted []) 1 [''example.com'', ''example.com''] [] world0
              = Ok [empty_response, empty_response]
                  (w'\<lparr>domain_cache := (domain_cache w')(''example.com'' \<mapsto> empty_response)\<rparr>)"
    by blast+
  moreover have "argument_loop [''example.com'', ''example.com''] [] = [''example.com'']" by simp
  moreover have "main_loop (scripted []) 1 [''example.com''] []
         (world0\<lparr>domain_cache := [''example.com'' \<mapsto> empty_response]\<rparr>)
       = Ok [empty_response] (world0\<lparr>domain_cache := [''example.com'' \<mapsto> empty_response]\<rparr>)"
    using repeated_name_resolved_once [where env = "scripted []" and n = 1
        and w = "world0\<lparr>domain_cache := [''example.com'' \<mapsto> empty_response]\<rparr>"
        and x = "''example.com''" and stored = empty_response and rest = "[]" and printed = "[]"]
    by simp
  ultimately show ?thesis using d c by blast
qed

text \<open>
  Claim C9 as stated fails: the second request is not served from the Result Cache, it is
  dropped. For the same name given twice \<open>main\<close> hands one result to \<open>print_results\<close>,
  not two equal ones, after the 52 exchanges of one collection.
\<close>

theorem repeated_name_printed_once:
  "\<exists>w'. main (scripted []) 1 [''example.com'', ''example.com''] world0 = Ok [empty_response] w'
        \<and> domain_cache w' ''example.com'' = Some empty_response
        \<and> length (net w') = 52"
  by (simp add: main_def collect_results_def lookup_def split_dot_def index_m2_def scripted_def
      world0_def ROOT_SERVERS_def cname_step_def address_step_def mx_step_def empty_response_def)

subsection \<open>The CNAME step of collect\_results\<close>

text \<open>
  Claim C10. In the CNAME step of \<open>collect_results\<close> every record of the answer section
  of the returned message is appended to the CNAME list, paired with the requested name
  and whatever its type, and the target of the A, AAAA and MX lookups that follow is the
  text of the last of these records (its \<open>str()\<close> less the final character); the A,
  AAAA and MX steps keep only the records of their own type.
\<close>

theorem cname_step_takes_every_record:
  "cname_step name (Some r) tn =
     (map (\<lambda>a. (a, name)) (concat (map items (answer r))),
      if concat (map items (answer r)) = [] then tn
      else butlast (to_text (last (concat (map items (answer r))))))
   \<and> (from_text env name = Some tn \<and> lookup env n tn 5 w = Ok (Some r) w1 \<and>
       lookup env n (snd (cname_step name (Some r) tn)) 1 w1 = Ok r2 w2 \<and>
       lookup env n (snd (cname_step name (Some r) tn)) 28 w2 = Ok r3 w3 \<and>
       lookup env n (snd (cname_step name (Some r) tn)) 15 w3 = Ok r4 w4 \<longrightarrow>
       collect_results env n name w =
         Ok \<lparr>cnames = map (\<lambda>a. (a, name)) (concat (map items (answer r))),
             arecords = address_step 1 r2, aaaarecords = address_step 28 r3,
             mxrecords = mx_step r4\<rparr> w4)
   \<and> address_step rtype (Some r) =
       concat (map (\<lambda>answers. map (\<lambda>a. (rr_name answers, to_text a))
                                  (filter (\<lambda>a. rdtype a = rtype) (items answers))) (answer r))
   \<and> mx_step (Some r) =
       concat (map (\<lambda>answers. map (\<lambda>a. (rr_name answers, preference a, exchange a))
                                  (filter (\<lambda>a. rdtype a = 15) (items answers))) (answer r))"
proof (intro conjI impI)
  show c: "cname_step name (Some r) tn =
     (map (\<lambda>a. (a, name)) (concat (map items (answer r))),
      if concat (map items (answer r)) = [] then tn
      else butlast (to_text (last (concat (map items (answer r))))))"
    by (simp add: cname_step_def cname_loop_eq)
  show "address_step rtype (Some r) =
       concat (map (\<lambda>answers. map (\<lambda>a. (rr_name answers, to_text a))
                                  (filter (\<lambda>a. rdtype a = rtype) (items answers))) (answer r))"
    by (simp add: address_step_def address_loop_eq)
  show "mx_step (Some r) =
       concat (map (\<lambda>answers. map (\<lambda>a. (rr_name answers, preference a, exchange a))
                                  (filter (\<lambda>a. rdtype a = 15) (items answers))) (answer r))"
    by (simp add: mx_step_def mx_loop_eq)
  assume a: "from_text env name = Some tn \<and> lookup env n tn 5 w = Ok (Some r) w1 \<and>
       lookup env n (snd (cname_step name (Some r) tn)) 1 w1 = Ok r2 w2 \<and>
       lookup env n (snd (cname_step name (Some r) tn)) 28 w2 = Ok r3 w3 \<and>
       lookup env n (snd (cname_step name (Some r) tn)) 15 w3 = Ok r4 w4"
  have "collect_results env n name w =
         Ok \<lparr>cnames = fst (cname_step name (Some r) tn),
             arecords = address_step 1 r2, aaaarecords = address_step 28 r3,
             mxrecords = mx_step r4\<rparr> w4"
    by (rule collect_results_steps
          [OF a[THEN conjunct1] a[THEN conjunct2, THEN conjunct1]
              a[THEN conjunct2, THEN conjunct2, THEN conjunct1]
              a[THEN conjunct2, THEN conjunct2, THEN conjunct2, THEN conjunct1]
              a[THEN conjunct2, THEN conjunct2, THEN conjunct2, THEN conjunct2]])
  then show "collect_results env n name w =
         Ok \<lparr>cnames = map (\<lambda>a. (a, name)) (concat (map items (answer r))),
             arecords = address_step 1 r2, aaaarecords = address_step 28 r3,
             mxrecords = mx_step r4\<rparr> w4"
    by (simp add: c)
qed

theorem cname_step_takes_every_record_witness:
  "\<exists>w4. collect_results (scripted cname_query_with_address) 1 ''www.example.com'' world0 =
     Ok \<lparr>cnames = [(mk_rdata 5 ''web.example.com.'', ''www.example.com''),
                   (mk_rdata 1 ''192.0.2.10'', ''www.example.com'')],
         arecords = [], aaaarecords = [], mxrecords = []\<rparr> w4"
proof -
  let ?E = "scripted cname_query_with_address"
  let ?r = "mk_message [cname_www, a_web] [] []"
  let ?w1 = "world0\<lparr>net := [(''www.example.com.'', 5, ''198.41.0.4'')]\<rparr>"
  have ft: "from_text ?E ''www.example.com'' = Some ''www.example.com.''"
    by (simp add: scripted_def)
  have l1: "lookup ?E 1 ''www.example.com.'' 5 world0 = Ok (Some ?r) ?w1"
    by (simp add: lookup_def split_dot_def index_m2_def world0_def scripted_def
        cname_query_with_address_def ROOT_SERVERS_def scenario_eval cname_www_def a_web_def)
  have tgt: "snd (cname_step ''www.example.com'' (Some ?r) ''www.example.com.'') = ''192.0.2.1''"
    by (simp add: cname_step_def scenario_eval cname_www_def a_web_def)
  have none: "\<exists>w'. lookup ?E 1 ''192.0.2.1'' t w0 = Ok None w'" for t w0
  proof -
    have "\<exists>nt. lookup ?E (Suc 0) ''192.0.2.1'' t w0 = Ok None (w0\<lparr>net := nt\<rparr>)"
      by (rule lookup_all_fail[where q = "(''192.0.2.1'', t)"])
         (simp_all add: scripted_def cname_query_with_address_def)
    then show ?thesis by auto
  qed
  obtain w2 where l2: "lookup ?E 1 ''192.0.2.1'' 1 ?w1 = Ok None w2" using none[of 1] by auto
  obtain w3 where l3: "lookup ?E 1 ''192.0.2.1'' 28 w2 = Ok None w3" using none[of 28] by auto
  obtain w4 where l4: "lookup ?E 1 ''192.0.2.1'' 15 w3 = Ok None w4" using none[of 15] by auto
  have "collect_results ?E 1 ''www.example.com'' world0 =
         Ok \<lparr>cnames = map (\<lambda>a. (a, ''www.example.com'')) (concat (map items (answer ?r))),
             arecords = address_step 1 None, aaaarecords = address_step 28 None,
             mxrecords = mx_step None\<rparr> w4"
    using cname_step_takes_every_record [where env = ?E and name = "''www.example.com''"
        and tn = "''www.example.com.''" and n = 1 and w = world0 and r = ?r and ?w1.0 = ?w1
        and ?r2.0 = None and ?w2.0 = w2 and ?r3.0 = None and ?w3.0 = w3 and ?r4.0 = None
        and ?w4.0 = w4] ft l1 l2 l3 l4 tgt
    by simp
  then show ?thesis
    by (simp add: scenario_eval cname_www_def a_web_def address_step_def mx_step_def)
qed

end
